theory Spec2Isabelle
  imports Main "HOL-Library.Word"
begin

section \<open>The counter testbench \<open>examples/counter/tb/sv/counter_tb.cpp\<close>\<close>

text \<open>
  The testbench is one C++ function, \<open>main\<close>. It owns a device under test (\<open>top\<close>, a
  \<open>Vcounter\<close>) and an optional waveform recorder (\<open>tfp\<close>, a \<open>VerilatedVcdC\<close>), drives the
  input ports of the device for 100 clock cycles and prints the output port \<open>count\<close> once
  per cycle.

  Everything \<open>main\<close> does is an effect on something outside it: an assignment to a port, a
  call of \<open>top->eval()\<close>, a call of \<open>tfp->dump\<close>, a call of \<open>printf\<close>. The model threads a
  state record through the statements of \<open>main\<close> in program order; the record holds the
  device, the recorder pointer, the backend's finish flag and the list of the effects
  performed so far, oldest first.
\<close>

subsection \<open>Effects\<close>

text \<open>
  One constructor for each kind of statement of \<open>main\<close> that acts on the backend, the
  device, the recorder or the standard output, with the arguments the statement passes.
  \<open>GotFinish b\<close> is the call \<open>Verilated::gotFinish()\<close> answering \<open>b\<close>. \<open>Eval r e c v\<close> is a
  call \<open>top->eval()\<close> made while the input ports hold \<open>rst_n = r\<close>, \<open>enable = e\<close>,
  \<open>clk = c\<close>, after which the output port \<open>count\<close> reads \<open>v\<close>.
\<close>

datatype event =
    CommandArgs
  | New_Vcounter
  | GotFinish bool
  | TraceEverOn bool
  | New_VerilatedVcdC
  | Trace_levels int
  | Open_vcd string
  | Set_rst_n "1 word"
  | Set_enable "1 word"
  | Set_clk "1 word"
  | Eval "1 word" "1 word" "1 word" int
  | Dump int
  | Printf int int
  | Close_vcd
  | Delete_tfp
  | Delete_top
  | Return int

subsection \<open>The device under test and the recorder\<close>

text \<open>
  Modelled from the spec: the class \<open>Vcounter\<close> is generated by the simulation backend and
  \<open>Vcounter.h\<close> is not part of the sources. The spec (sections 3, 6 and 9) describes it as
  an entity with three settable 1-bit input signals, a readable integer output \<open>count\<close>
  and an operation \<open>evaluate()\<close> that propagates the inputs to the outputs by the model's
  internal logic. The internal logic is a parameter: \<open>'m\<close> is the type of the internal
  state, \<open>eval_m\<close> the evaluation as a function of the three inputs and the internal state,
  \<open>count_m\<close> reads the output port, and \<open>finish_m\<close> tells whether the internal state is one
  in which the design has signalled the backend's finish condition.
\<close>

record 'm Vcounter_model =
  eval_m :: "1 word \<Rightarrow> 1 word \<Rightarrow> 1 word \<Rightarrow> 'm \<Rightarrow> 'm"
  count_m :: "'m \<Rightarrow> int"
  finish_m :: "'m \<Rightarrow> bool"

record 'm Vcounter =
  rst_n :: "1 word"
  enable :: "1 word"
  clk :: "1 word"
  core :: 'm

text \<open>The recorder is opaque; \<open>tfp\<close> is \<open>None\<close> for \<open>nullptr\<close>.\<close>

datatype VerilatedVcdC = VerilatedVcdC

record 'm sim =
  topV :: "'m Vcounter"
  tfp :: "VerilatedVcdC option"
  got_finish :: bool
  events :: "event list"

subsection \<open>The statements of \<open>main\<close>\<close>

definition emit :: "event \<Rightarrow> 'm sim \<Rightarrow> 'm sim" where
  "emit e s = s\<lparr>events := events s @ [e]\<rparr>"

definition set_rst_n :: "1 word \<Rightarrow> 'm sim \<Rightarrow> 'm sim" where
  "set_rst_n v s = emit (Set_rst_n v) (s\<lparr>topV := (topV s)\<lparr>rst_n := v\<rparr>\<rparr>)"

definition set_enable :: "1 word \<Rightarrow> 'm sim \<Rightarrow> 'm sim" where
  "set_enable v s = emit (Set_enable v) (s\<lparr>topV := (topV s)\<lparr>enable := v\<rparr>\<rparr>)"

definition set_clk :: "1 word \<Rightarrow> 'm sim \<Rightarrow> 'm sim" where
  "set_clk v s = emit (Set_clk v) (s\<lparr>topV := (topV s)\<lparr>clk := v\<rparr>\<rparr>)"

text \<open>
  \<open>top->eval()\<close>: the internal state moves by \<open>eval_m\<close> under the input ports as they
  stand; the input ports are left as they are; the backend's finish flag is raised when the
  design signals it, and never lowered.
\<close>

definition eval :: "'m Vcounter_model \<Rightarrow> 'm sim \<Rightarrow> 'm sim" where
  "eval mdl s =
     (let t = topV s;
          m' = eval_m mdl (rst_n t) (enable t) (clk t) (core t)
      in emit (Eval (rst_n t) (enable t) (clk t) (count_m mdl m'))
           (s\<lparr>topV := t\<lparr>core := m'\<rparr>, got_finish := (got_finish s \<or> finish_m mdl m')\<rparr>))"

text \<open>\<open>if (tfp) tfp->dump(t)\<close>: the recorder samples the device and does not change it.\<close>

definition dump :: "int \<Rightarrow> 'm sim \<Rightarrow> 'm sim" where
  "dump t s = (if tfp s \<noteq> None then emit (Dump t) s else s)"

subsection \<open>\<open>printf\<close> with \<open>%d\<close>\<close>

function dec_nat :: "nat \<Rightarrow> string" where
  "dec_nat n =
     (if n < 10 then [char_of (48 + n)]
      else dec_nat (n div 10) @ [char_of (48 + n mod 10)])"
  by pat_completeness auto
termination
  by (relation "measure id") auto

declare dec_nat.simps [simp del]

definition fmt_d :: "int \<Rightarrow> string" where
  "fmt_d i = (if i < 0 then CHR ''-'' # dec_nat (nat (- i)) else dec_nat (nat i))"

text \<open>
  The format strings of this program hold literal characters and \<open>%d\<close> only. A \<open>%d\<close>
  with no argument left is undefined behaviour in C; the model prints nothing for it.
\<close>

fun printf :: "string \<Rightarrow> int list \<Rightarrow> string" where
  "printf [] args = []"
| "printf [c] args = [c]"
| "printf (c # d # fs) args =
     (if c = CHR ''%'' \<and> d = CHR ''d''
      then (case args of [] \<Rightarrow> printf fs [] | a # as \<Rightarrow> fmt_d a @ printf fs as)
      else c # printf (d # fs) args)"

definition cycle_format :: string where
  "cycle_format = ''Cycle %d: count = %d'' @ [CHR 0x0A]"

subsection \<open>The loop\<close>

text \<open>
  The body of the \<open>for\<close> loop, lines 24 to 41. \<open>cycle\<close> is a C \<open>int\<close>; it stays in
  \<open>[0, 100)\<close>, so \<open>cycle*2+1\<close> is at most 199 and no arithmetic of the loop overflows.
\<close>

definition cycle_body :: "'m Vcounter_model \<Rightarrow> int \<Rightarrow> 'm sim \<Rightarrow> 'm sim" where
  "cycle_body mdl cycle s0 =
     (let s1 = (if cycle < 5 then set_rst_n 0 s0
                else set_enable 1 (set_rst_n 1 s0));
          s2 = dump (cycle * 2) (eval mdl (set_clk 0 s1));
          s3 = dump (cycle * 2 + 1) (eval mdl (set_clk 1 s2))
      in emit (Printf cycle (count_m mdl (core (topV s3)))) s3)"

function loop :: "'m Vcounter_model \<Rightarrow> int \<Rightarrow> 'm sim \<Rightarrow> 'm sim" where
  "loop mdl cycle s =
     (if cycle < 100 then loop mdl (cycle + 1) (cycle_body mdl cycle s) else s)"
  by pat_completeness auto
termination
  by (relation "measure (\<lambda>(mdl, cycle, s). nat (100 - cycle))") auto

declare loop.simps [simp del]

subsection \<open>\<open>main\<close>\<close>

text \<open>
  \<open>fin\<close> is the backend's finish flag when \<open>main\<close> starts and \<open>new_top\<close> the device as its
  constructor leaves it. Lines 6 to 16 are \<open>startup\<close>, lines 19 to 21 \<open>initial_inputs\<close>,
  lines 44 to 50 \<open>teardown\<close>.
\<close>

definition startup :: "bool \<Rightarrow> 'm Vcounter \<Rightarrow> 'm sim" where
  "startup fin new_top =
     (let s0 = emit New_Vcounter (emit CommandArgs
                 \<lparr>topV = new_top, tfp = None, got_finish = fin, events = []\<rparr>);
          s1 = emit (GotFinish (got_finish s0)) s0
      in if got_finish s0 = False
         then emit (Open_vcd ''counter.vcd'')
                (emit (Trace_levels 99)
                  ((emit New_VerilatedVcdC (emit (TraceEverOn True) s1))
                     \<lparr>tfp := Some VerilatedVcdC\<rparr>))
         else s1)"

definition initial_inputs :: "'m sim \<Rightarrow> 'm sim" where
  "initial_inputs s = set_clk 0 (set_enable 0 (set_rst_n 0 s))"

definition teardown :: "'m sim \<Rightarrow> 'm sim" where
  "teardown s =
     (let s1 = (if tfp s \<noteq> None then emit Delete_tfp (emit Close_vcd s) else s)
      in emit (Return 0) (emit Delete_top s1))"

definition main :: "'m Vcounter_model \<Rightarrow> bool \<Rightarrow> 'm Vcounter \<Rightarrow> 'm sim" where
  "main mdl fin new_top = teardown (loop mdl 0 (initial_inputs (startup fin new_top)))"

subsection \<open>Reading the list of effects\<close>

text \<open>
  Each of the following reads one kind of effect off the list, keeping the order. All of
  them work event by event, so they distribute over \<open>@\<close>.
\<close>

text \<open>The argument pairs of the \<open>printf\<close> calls.\<close>

fun printf_args :: "event \<Rightarrow> (int \<times> int) list" where
  "printf_args (Printf c v) = [(c, v)]"
| "printf_args _ = []"

definition printed :: "event list \<Rightarrow> (int \<times> int) list" where
  "printed es = concat (map printf_args es)"

text \<open>What the \<open>printf\<close> calls write to the standard output, one string per call.\<close>

definition stdout_lines :: "event list \<Rightarrow> string list" where
  "stdout_lines es = map (\<lambda>(c, v). printf cycle_format [c, v]) (printed es)"

text \<open>The input vectors \<open>(rst_n, enable, clk)\<close> under which the evaluations ran.\<close>

fun eval_args :: "event \<Rightarrow> (1 word \<times> 1 word \<times> 1 word) list" where
  "eval_args (Eval r e k v) = [(r, e, k)]"
| "eval_args _ = []"

definition eval_inputs :: "event list \<Rightarrow> (1 word \<times> 1 word \<times> 1 word) list" where
  "eval_inputs es = concat (map eval_args es)"

text \<open>The value of \<open>count\<close> after each evaluation that ran with \<open>clk = 1\<close>.\<close>

fun rising_count :: "event \<Rightarrow> int list" where
  "rising_count (Eval r e k v) = (if k = 1 then [v] else [])"
| "rising_count _ = []"

definition rising_counts :: "event list \<Rightarrow> int list" where
  "rising_counts es = concat (map rising_count es)"

text \<open>The timestamps of the samples handed to the recorder.\<close>

fun dump_arg :: "event \<Rightarrow> int list" where
  "dump_arg (Dump t) = [t]"
| "dump_arg _ = []"

definition dump_times :: "event list \<Rightarrow> int list" where
  "dump_times es = concat (map dump_arg es)"

text \<open>
  Evaluations and samples together: \<open>Inl k\<close> for an evaluation that ran with \<open>clk = k\<close>,
  \<open>Inr t\<close> for a sample at timestamp \<open>t\<close>.
\<close>

fun edge_or_sample :: "event \<Rightarrow> (1 word + int) list" where
  "edge_or_sample (Eval r e k v) = [Inl k]"
| "edge_or_sample (Dump t) = [Inr t]"
| "edge_or_sample _ = []"

definition edges_and_samples :: "event list \<Rightarrow> (1 word + int) list" where
  "edges_and_samples es = concat (map edge_or_sample es)"

text \<open>
  The steps of the clocking procedure: an assignment to \<open>clk\<close>, an evaluation, a sample
  with its timestamp, a report with its cycle number.
\<close>

datatype step = Clock "1 word" | Evaluate | Sample int | Report int

fun step_of :: "event \<Rightarrow> step list" where
  "step_of (Set_clk v) = [Clock v]"
| "step_of (Eval r e k v) = [Evaluate]"
| "step_of (Dump t) = [Sample t]"
| "step_of (Printf c v) = [Report c]"
| "step_of _ = []"

definition steps :: "event list \<Rightarrow> step list" where
  "steps es = concat (map step_of es)"

text \<open>The assignments to \<open>rst_n\<close> and \<open>enable\<close>.\<close>

fun is_stimulus :: "event \<Rightarrow> bool" where
  "is_stimulus (Set_rst_n v) = True"
| "is_stimulus (Set_enable v) = True"
| "is_stimulus _ = False"

definition stimulus :: "event list \<Rightarrow> event list" where
  "stimulus es = filter is_stimulus es"

text \<open>The values assigned to \<open>rst_n\<close>, and those assigned to \<open>enable\<close>.\<close>

fun rst_n_arg :: "event \<Rightarrow> 1 word list" where
  "rst_n_arg (Set_rst_n v) = [v]"
| "rst_n_arg _ = []"

definition rst_n_writes :: "event list \<Rightarrow> 1 word list" where
  "rst_n_writes es = concat (map rst_n_arg es)"

fun enable_arg :: "event \<Rightarrow> 1 word list" where
  "enable_arg (Set_enable v) = [v]"
| "enable_arg _ = []"

definition enable_writes :: "event list \<Rightarrow> 1 word list" where
  "enable_writes es = concat (map enable_arg es)"

text \<open>How many times a sequence of values changes from one element to the next.\<close>

definition transitions :: "'a list \<Rightarrow> nat" where
  "transitions xs = length (filter (\<lambda>(a, b). a \<noteq> b) (zip xs (tl xs)))"

text \<open>The calls of \<open>Verilated::gotFinish()\<close>.\<close>

fun is_consult :: "event \<Rightarrow> bool" where
  "is_consult (GotFinish b) = True"
| "is_consult _ = False"

definition consults :: "event list \<Rightarrow> event list" where
  "consults es = filter is_consult es"

text \<open>The operations on the recorder and on the backend's tracing switch.\<close>

fun is_recorder :: "event \<Rightarrow> bool" where
  "is_recorder (TraceEverOn b) = True"
| "is_recorder New_VerilatedVcdC = True"
| "is_recorder (Trace_levels n) = True"
| "is_recorder (Open_vcd f) = True"
| "is_recorder (Dump t) = True"
| "is_recorder Close_vcd = True"
| "is_recorder Delete_tfp = True"
| "is_recorder _ = False"

text \<open>
  What the run does to the device and to the standard output, and how it ends: every
  effect but the recorder's and the startup question.
\<close>

definition driving :: "event list \<Rightarrow> event list" where
  "driving es = filter (\<lambda>e. \<not> is_recorder e \<and> \<not> is_consult e) es"

text \<open>Closing and releasing, and the return.\<close>

fun is_teardown :: "event \<Rightarrow> bool" where
  "is_teardown Close_vcd = True"
| "is_teardown Delete_tfp = True"
| "is_teardown Delete_top = True"
| "is_teardown (Return n) = True"
| "is_teardown _ = False"

fun is_open :: "event \<Rightarrow> bool" where
  "is_open (Open_vcd f) = True"
| "is_open _ = False"

text \<open>The effects of one iteration of the loop started in state \<open>s\<close>.\<close>

definition cycle_events :: "'m Vcounter_model \<Rightarrow> int \<Rightarrow> 'm sim \<Rightarrow> event list" where
  "cycle_events mdl c s = drop (length (events s)) (events (cycle_body mdl c s))"

subsection \<open>A counter design\<close>

text \<open>
  Modelled from the spec: the counter design itself (the module behind \<open>Vcounter\<close>) is
  not part of the sources. The spec calls it a synchronous counter with an active-low
  reset and an enable: while \<open>reset_active_low = 0\<close> the counter is held at its reset
  value; once reset is released and \<open>enable = 1\<close>, \<open>count\<close> goes up by exactly 1 per clock
  cycle, modulo the wraparound width. A clock cycle of the testbench is one evaluation with
  \<open>clk = 0\<close> followed by one with \<open>clk = 1\<close>, so the count moves on the rising edge:
  an evaluation that sees \<open>clk = 1\<close> after the previous one saw \<open>clk = 0\<close>. \<open>w\<close> is the
  width in bits and \<open>r\<close> the reset value. The design never signals the finish condition.
\<close>

record counter_state =
  cnt :: int
  clk_last :: "1 word"

definition counter_eval ::
  "nat \<Rightarrow> int \<Rightarrow> 1 word \<Rightarrow> 1 word \<Rightarrow> 1 word \<Rightarrow> counter_state \<Rightarrow> counter_state" where
  "counter_eval w r rst en ck m =
     (if rst = 0 then \<lparr>cnt = r, clk_last = ck\<rparr>
      else if clk_last m = 0 \<and> ck = 1 \<and> en = 1
           then \<lparr>cnt = (cnt m + 1) mod 2 ^ w, clk_last = ck\<rparr>
           else \<lparr>cnt = cnt m, clk_last = ck\<rparr>)"

definition counter :: "nat \<Rightarrow> int \<Rightarrow> counter_state Vcounter_model" where
  "counter w r = \<lparr>eval_m = counter_eval w r, count_m = cnt, finish_m = (\<lambda>m. False)\<rparr>"

text \<open>
  What a run on this design reports in cycle \<open>c\<close>, in closed form: the reset value up to
  cycle 4, and from cycle 5 on one more per cycle, modulo \<open>2 ^ w\<close>. That the run does
  report this is lemma \<open>counter_reports\<close> below.
\<close>

definition reported :: "nat \<Rightarrow> int \<Rightarrow> int \<Rightarrow> int" where
  "reported w r c = (if c < 5 then r else (r + (c - 4)) mod 2 ^ w)"

section \<open>Properties\<close>

subsection \<open>One iteration\<close>

lemma cycle_body_unfold:
  "cycle_body mdl c s =
    (let r = (if c < 5 then 0 else 1);
         e = (if c < 5 then enable (topV s) else 1);
         m1 = eval_m mdl r e 0 (core (topV s));
         m2 = eval_m mdl r e 1 m1
     in s\<lparr>topV := \<lparr>rst_n = r, enable = e, clk = 1, core = m2\<rparr>,
          got_finish := (got_finish s \<or> finish_m mdl m1 \<or> finish_m mdl m2),
          events := events s @
            (if c < 5 then [Set_rst_n 0] else [Set_rst_n 1, Set_enable 1]) @
            [Set_clk 0, Eval r e 0 (count_m mdl m1)] @
            (if tfp s \<noteq> None then [Dump (c * 2)] else []) @
            [Set_clk 1, Eval r e 1 (count_m mdl m2)] @
            (if tfp s \<noteq> None then [Dump (c * 2 + 1)] else []) @
            [Printf c (count_m mdl m2)]\<rparr>)"
  by (cases s, cases "topV s")
     (simp add: cycle_body_def set_rst_n_def set_enable_def set_clk_def eval_def dump_def
        emit_def Let_def)

lemma events_cycle_body:
  "events (cycle_body mdl c s) = events s @ cycle_events mdl c s"
  by (simp add: cycle_events_def cycle_body_unfold Let_def)

lemma cycle_events_eq:
  "cycle_events mdl c s =
    (let r = (if c < 5 then 0 else 1);
         e = (if c < 5 then enable (topV s) else 1);
         m1 = eval_m mdl r e 0 (core (topV s));
         m2 = eval_m mdl r e 1 m1
     in (if c < 5 then [Set_rst_n 0] else [Set_rst_n 1, Set_enable 1]) @
        [Set_clk 0, Eval r e 0 (count_m mdl m1)] @
        (if tfp s \<noteq> None then [Dump (c * 2)] else []) @
        [Set_clk 1, Eval r e 1 (count_m mdl m2)] @
        (if tfp s \<noteq> None then [Dump (c * 2 + 1)] else []) @
        [Printf c (count_m mdl m2)])"
  by (simp add: cycle_events_def cycle_body_unfold Let_def)

lemma tfp_cycle_body: "tfp (cycle_body mdl c s) = tfp s"
  by (simp add: cycle_body_unfold Let_def)

lemma topV_cycle_body:
  "topV (cycle_body mdl c s) =
    (let r = (if c < 5 then 0 else 1);
         e = (if c < 5 then enable (topV s) else 1)
     in \<lparr>rst_n = r, enable = e, clk = 1,
         core = eval_m mdl r e 1 (eval_m mdl r e 0 (core (topV s)))\<rparr>)"
  by (simp add: cycle_body_unfold Let_def)

subsection \<open>The loop: an invariant rule\<close>

lemma loop_invariant:
  assumes "I c s" and "c \<le> 100"
    and step: "\<And>c s. c < 100 \<Longrightarrow> I c s \<Longrightarrow> I (c + 1) (cycle_body mdl c s)"
  shows "I 100 (loop mdl c s)"
  using assms
proof (induction mdl c s rule: loop.induct)
  case (1 mdl cycle s)
  show ?case
  proof (cases "cycle < 100")
    case True
    have a: "I (cycle + 1) (cycle_body mdl cycle s)"
      by (rule "1.prems"(3) [OF True "1.prems"(1)])
    have b: "cycle + 1 \<le> 100"
      using True by simp
    have "I 100 (loop mdl (cycle + 1) (cycle_body mdl cycle s))"
      by (rule "1.IH" [OF True a b "1.prems"(3)])
    then show ?thesis using True by (subst loop.simps) simp
  next
    case False
    then have "cycle = 100" using "1.prems"(2) by simp
    then show ?thesis using "1.prems"(1) by (subst loop.simps) simp
  qed
qed

text \<open>
  A reading \<open>p\<close> of the effects that distributes over \<open>@\<close>, and that reads \<open>g c\<close> off
  iteration \<open>c\<close> whenever the iteration starts in a state satisfying \<open>J c\<close>, reads the
  concatenation of \<open>g 0\<close>, ..., \<open>g 99\<close> off the loop.
\<close>

lemma loop_view:
  assumes hom: "\<And>xs ys. p (xs @ ys) = p xs @ p ys"
    and J0: "J 0 s"
    and keep: "\<And>c s. 0 \<le> c \<Longrightarrow> c < 100 \<Longrightarrow> J c s \<Longrightarrow> J (c + 1) (cycle_body mdl c s)"
    and new: "\<And>c s. 0 \<le> c \<Longrightarrow> c < 100 \<Longrightarrow> J c s \<Longrightarrow> p (cycle_events mdl c s) = g c"
  shows "p (events (loop mdl 0 s)) = p (events s) @ concat (map g [0..99])"
proof -
  define I where "I c s' \<longleftrightarrow>
    0 \<le> c \<and> J c s' \<and> p (events s') = p (events s) @ concat (map g [0..c - 1])" for c s'
  have "I 100 (loop mdl 0 s)"
  proof (rule loop_invariant)
    show "I 0 s" by (simp add: I_def J0)
    show "(0::int) \<le> 100" by simp
  next
    fix c s' assume c: "c < 100" and i: "I c s'"
    have up: "[0..c] = [0..c - 1] @ [c]"
      using i by (simp add: I_def upto_rec2)
    show "I (c + 1) (cycle_body mdl c s')"
      using i c keep [of c s'] new [of c s'] by (simp add: I_def events_cycle_body hom up)
  qed
  then show ?thesis by (simp add: I_def)
qed

subsection \<open>Before and after the loop\<close>

lemma events_before_loop:
  "events (initial_inputs (startup fin t)) =
     [CommandArgs, New_Vcounter, GotFinish fin] @
     (if fin then []
      else [TraceEverOn True, New_VerilatedVcdC, Trace_levels 99, Open_vcd ''counter.vcd'']) @
     [Set_rst_n 0, Set_enable 0, Set_clk 0]"
  by (simp add: initial_inputs_def startup_def set_rst_n_def set_enable_def set_clk_def
        emit_def Let_def)

lemma tfp_before_loop:
  "tfp (initial_inputs (startup fin t)) = (if fin then None else Some VerilatedVcdC)"
  by (simp add: initial_inputs_def startup_def set_rst_n_def set_enable_def set_clk_def
        emit_def Let_def)

lemma enable_before_loop: "enable (topV (initial_inputs (startup fin t))) = 0"
  by (simp add: initial_inputs_def startup_def set_rst_n_def set_enable_def set_clk_def
        emit_def Let_def)

lemma tfp_loop: "tfp (loop mdl c s) = tfp s" if "c \<le> 100"
proof -
  have "(\<lambda>c s'. tfp s' = tfp s) 100 (loop mdl c s)"
    by (rule loop_invariant) (simp_all add: that tfp_cycle_body)
  then show ?thesis .
qed

lemma events_teardown:
  "events (teardown s) = events s @
     (if tfp s \<noteq> None then [Close_vcd, Delete_tfp] else []) @ [Delete_top, Return 0]"
  by (simp add: teardown_def emit_def Let_def)

lemma events_main:
  "events (main mdl fin t) =
     events (loop mdl 0 (initial_inputs (startup fin t))) @
     (if fin then [] else [Close_vcd, Delete_tfp]) @ [Delete_top, Return 0]"
  using tfp_before_loop [of fin t]
  by (simp add: main_def events_teardown tfp_loop)

text \<open>
  The same for a whole run. The loop starts with the recorder present exactly when the
  finish flag was down, and with \<open>enable = 0\<close>; the recorder pointer is never assigned
  in the loop, and \<open>enable\<close> is not assigned before cycle 5.
\<close>

lemma main_view:
  assumes hom: "\<And>xs ys. p (xs @ ys) = p xs @ p ys"
    and new: "\<And>c s. 0 \<le> c \<Longrightarrow> c < 100 \<Longrightarrow>
                tfp s = (if fin then None else Some VerilatedVcdC) \<Longrightarrow>
                (c < 5 \<longrightarrow> enable (topV s) = 0) \<Longrightarrow> p (cycle_events mdl c s) = g c"
  shows "p (events (main mdl fin t)) =
     p (events (initial_inputs (startup fin t))) @ concat (map g [0..99]) @
     p ((if fin then [] else [Close_vcd, Delete_tfp]) @ [Delete_top, Return 0])"
proof -
  let ?J = "\<lambda>c s. tfp s = (if fin then None else Some VerilatedVcdC) \<and>
                  (c < 5 \<longrightarrow> enable (topV s) = 0)"
  have "p (events (loop mdl 0 (initial_inputs (startup fin t)))) =
        p (events (initial_inputs (startup fin t))) @ concat (map g [0..99])"
  proof (rule loop_view [where J = ?J])
    show "\<And>xs ys. p (xs @ ys) = p xs @ p ys" by (rule hom)
    show "?J 0 (initial_inputs (startup fin t))"
      by (simp add: tfp_before_loop enable_before_loop)
    show "\<And>c s. 0 \<le> c \<Longrightarrow> c < 100 \<Longrightarrow> ?J c s \<Longrightarrow> ?J (c + 1) (cycle_body mdl c s)"
      by (simp add: tfp_cycle_body topV_cycle_body)
    show "\<And>c s. 0 \<le> c \<Longrightarrow> c < 100 \<Longrightarrow> ?J c s \<Longrightarrow> p (cycle_events mdl c s) = g c"
      using new by simp
  qed
  then show ?thesis by (simp add: events_main hom)
qed

lemma printed_append: "printed (xs @ ys) = printed xs @ printed ys"
  by (simp add: printed_def)

lemma upto_as_concat: "concat (map (\<lambda>c. [c]) xs) = xs"
  by (induction xs) simp_all

subsection \<open>The output lines\<close>

lemma printf_cycle_format:
  "printf cycle_format [c, v] =
     ''Cycle '' @ fmt_d c @ '': count = '' @ fmt_d v @ [CHR 0x0A]"
  by (simp add: cycle_format_def)

lemma digit_not_newline: "n < 10 \<Longrightarrow> char_of (48 + n) \<noteq> CHR 0x0A" for n :: nat
proof
  assume n: "n < 10" and "char_of (48 + n) = CHR 0x0A"
  then have "of_char (char_of (48 + n)) = (of_char (CHR 0x0A) :: nat)"
    by simp
  then show False using n by simp
qed

lemma dec_nat_no_newline: "count_list (dec_nat n) (CHR 0x0A) = 0"
proof (induction n rule: dec_nat.induct)
  case (1 n)
  show ?case
  proof (cases "n < 10")
    case True
    then show ?thesis by (subst dec_nat.simps) (simp add: digit_not_newline)
  next
    case False
    have "n mod 10 < 10" by simp
    then have "char_of (48 + n mod 10) \<noteq> CHR 0x0A" by (rule digit_not_newline)
    then show ?thesis using False 1 by (subst dec_nat.simps) simp
  qed
qed

lemma fmt_d_no_newline: "count_list (fmt_d i) (CHR 0x0A) = 0"
  by (simp add: fmt_d_def dec_nat_no_newline)

lemma one_newline:
  "count_list (printf cycle_format [c, v]) (CHR 0x0A) = 1"
  by (simp add: printf_cycle_format fmt_d_no_newline)

lemma printed_main: "map fst (printed (events (main mdl fin t))) = [0..99]"
proof -
  have "(map fst \<circ> printed) (events (main mdl fin t)) =
      (map fst \<circ> printed) (events (initial_inputs (startup fin t))) @
      concat (map (\<lambda>c. [c]) [0..99]) @
      (map fst \<circ> printed) ((if fin then [] else [Close_vcd, Delete_tfp]) @ [Delete_top, Return 0])"
    by (rule main_view) (simp_all add: printed_append cycle_events_eq Let_def printed_def)
  then show ?thesis
    by (simp add: events_before_loop printed_def upto_as_concat)
qed

subsection \<open>Cycles 0 to 4 and cycles 5 to 99\<close>

lemma upto_0_99_split: "[0..99] = [0..4] @ [5..99]"
  using upto_split1 [of 0 5 99] by (simp del: upto_rec_numeral)

lemma by_phase:
  "concat (map (\<lambda>c. if c < 5 then a else b) [0..99]) =
     concat (replicate 5 a) @ concat (replicate 95 b)"
proof -
  have "map (\<lambda>c. if c < 5 then a else b) [0..4] = map (\<lambda>c. a) [0..4]"
    by (rule map_cong) auto
  then have 1: "map (\<lambda>c. if c < 5 then a else b) [0..4] = replicate 5 a"
    by (simp only: map_replicate_const length_upto) simp
  have "map (\<lambda>c. if c < 5 then a else b) [5..99] = map (\<lambda>c. b) [5..99]"
    by (rule map_cong) auto
  then have 2: "map (\<lambda>c. if c < 5 then a else b) [5..99] = replicate 95 b"
    by (simp only: map_replicate_const length_upto) simp
  show ?thesis
    by (simp only: upto_0_99_split map_append concat_append 1 2)
qed

lemma concat_replicate_pair: "concat (replicate n [x, x]) = replicate (2 * n) x"
  by (induction n) simp_all

lemma concat_replicate_single: "concat (replicate n [x]) = replicate n x"
  by (induction n) simp_all

lemma eval_inputs_main:
  "eval_inputs (events (main mdl fin t)) =
     concat (map (\<lambda>c. if c < 5 then [(0, 0, 0), (0, 0, 1)] else [(1, 1, 0), (1, 1, 1)]) [0..99])"
proof -
  have "eval_inputs (events (main mdl fin t)) =
      eval_inputs (events (initial_inputs (startup fin t))) @
      concat (map (\<lambda>c. if c < 5 then [(0, 0, 0), (0, 0, 1)] else [(1, 1, 0), (1, 1, 1)]) [0..99]) @
      eval_inputs ((if fin then [] else [Close_vcd, Delete_tfp]) @ [Delete_top, Return 0])"
    by (rule main_view) (simp_all add: cycle_events_eq Let_def eval_inputs_def)
  then show ?thesis
    by (simp add: events_before_loop eval_inputs_def)
qed


lemma double_upto: "concat (map (\<lambda>c. [c * 2, c * 2 + 1]) [0..int n - 1]) = [0..2 * int n - 1]"
proof (induction n)
  case 0
  show ?case by simp
next
  case (Suc n)
  have a: "[0..int (Suc n) - 1] = [0..int n - 1] @ [int n]"
    using upto_rec2 [of 0 "int n"] by simp
  have b1: "[0..int n * 2 + 1] = [0..int n * 2] @ [int n * 2 + 1]"
    by (rule upto_rec2 [of 0 "int n * 2 + 1", simplified])
  have b2: "[0..int n * 2] = [0..int n * 2 - 1] @ [int n * 2]"
    by (rule upto_rec2) simp
  have b3: "2 * int (Suc n) - 1 = int n * 2 + 1"
    by simp
  have b: "[0..2 * int (Suc n) - 1] = [0..2 * int n - 1] @ [int n * 2, int n * 2 + 1]"
    by (simp only: b3 b1) (simp add: b2 mult.commute)
  show ?case
    by (simp only: a b map_append concat_append Suc) simp
qed

lemma double_upto_100: "concat (map (\<lambda>c. [c * 2, c * 2 + 1]) [0..99]) = [0..199]"
  using double_upto [of 100] by simp

subsection \<open>Reports, teardown and the finish flag\<close>

lemma reports_follow_rising:
  "map snd (printed (events (main mdl fin t))) = rising_counts (events (main mdl fin t))"
proof -
  let ?I = "\<lambda>(c::int) s. map snd (printed (events s)) = rising_counts (events s)"
  have "?I 100 (loop mdl 0 (initial_inputs (startup fin t)))"
  proof (rule loop_invariant)
    show "?I 0 (initial_inputs (startup fin t))"
      by (simp add: events_before_loop printed_def rising_counts_def)
    show "(0::int) \<le> 100" by simp
  next
    fix c :: int and s :: "'a sim"
    assume "?I c s"
    then show "?I (c + 1) (cycle_body mdl c s)"
      by (simp add: events_cycle_body cycle_events_eq Let_def printed_def rising_counts_def)
  qed
  then show ?thesis
    by (simp add: events_main printed_def rising_counts_def)
qed

lemma no_teardown_in_loop:
  "filter is_teardown (events (loop mdl 0 (initial_inputs (startup fin t)))) = []"
proof -
  let ?I = "\<lambda>(c::int) s. filter is_teardown (events s) = []"
  have "?I 100 (loop mdl 0 (initial_inputs (startup fin t)))"
  proof (rule loop_invariant)
    show "?I 0 (initial_inputs (startup fin t))"
      by (simp add: events_before_loop)
    show "(0::int) \<le> 100" by simp
  next
    fix c :: int and s :: "'a sim"
    assume "?I c s"
    then show "?I (c + 1) (cycle_body mdl c s)"
      by (simp add: events_cycle_body cycle_events_eq Let_def)
  qed
  then show ?thesis .
qed

lemma dropWhile_past: "filter P xs = [] \<Longrightarrow> dropWhile (\<lambda>x. \<not> P x) (xs @ ys) = dropWhile (\<lambda>x. \<not> P x) ys"
  by (rule dropWhile_append2) (simp add: filter_empty_conv)

lemma opened_main:
  "filter is_open (events (main mdl fin t)) = (if fin then [] else [Open_vcd ''counter.vcd''])"
proof -
  have "filter is_open (events (main mdl fin t)) =
      filter is_open (events (initial_inputs (startup fin t))) @ concat (map (\<lambda>c. []) [0..99]) @
      filter is_open ((if fin then [] else [Close_vcd, Delete_tfp]) @ [Delete_top, Return 0])"
    by (rule main_view) (simp_all add: cycle_events_eq Let_def)
  then show ?thesis
    by (simp add: events_before_loop)
qed

lemma consults_main: "consults (events (main mdl fin t)) = [GotFinish fin]"
proof -
  have "consults (events (main mdl fin t)) =
      consults (events (initial_inputs (startup fin t))) @ concat (map (\<lambda>c. []) [0..99]) @
      consults ((if fin then [] else [Close_vcd, Delete_tfp]) @ [Delete_top, Return 0])"
    by (rule main_view) (simp_all add: cycle_events_eq Let_def consults_def)
  then show ?thesis
    by (simp add: events_before_loop consults_def)
qed

lemma events_loop_prefix:
  "take 3 (events (loop mdl 0 (initial_inputs (startup fin t)))) =
     [CommandArgs, New_Vcounter, GotFinish fin]"
proof -
  let ?I = "\<lambda>(c::int) s. take 3 (events s) = [CommandArgs, New_Vcounter, GotFinish fin]"
  have "?I 100 (loop mdl 0 (initial_inputs (startup fin t)))"
  proof (rule loop_invariant)
    show "?I 0 (initial_inputs (startup fin t))"
      by (simp add: events_before_loop)
    show "(0::int) \<le> 100" by simp
  next
    fix c :: int and s :: "'a sim"
    assume i: "?I c s"
    then have "3 \<le> length (events s)"
      using length_take [of 3 "events s"] by simp  
    with i show "?I (c + 1) (cycle_body mdl c s)"
      by (simp add: events_cycle_body)
  qed
  then show ?thesis .
qed

lemma length_concat_replicate_two: "length (concat (replicate n [a, b])) = 2 * n"
  by (induction n) simp_all

lemma got_finish_cycle_body:
  "got_finish (cycle_body mdl c s) =
     (got_finish s \<or>
      finish_m mdl (eval_m mdl (rst_n (topV (cycle_body mdl c s)))
         (enable (topV (cycle_body mdl c s))) 0 (core (topV s))) \<or>
      finish_m mdl (core (topV (cycle_body mdl c s))))"
  by (simp add: cycle_body_unfold Let_def)

lemma got_finish_teardown: "got_finish (teardown s) = got_finish s"
  by (simp add: teardown_def emit_def Let_def)

lemma finish_raised_mid_run:
  assumes "\<And>m. finish_m mdl m"
  shows "got_finish (main mdl fin t)"
proof -
  let ?I = "\<lambda>(c::int) s. 0 < c \<longrightarrow> got_finish s"
  have "?I 100 (loop mdl 0 (initial_inputs (startup fin t)))"
  proof (rule loop_invariant)
    show "?I 0 (initial_inputs (startup fin t))" by simp
    show "(0::int) \<le> 100" by simp
  next
    fix c :: int and s :: "'a sim"
    show "?I (c + 1) (cycle_body mdl c s)"
      by (simp add: got_finish_cycle_body assms)
  qed
  then show ?thesis
    by (simp add: main_def got_finish_teardown)
qed

subsection \<open>Two runs of one design\<close>

lemma driving_cycle_events:
  "topV s = topV s' \<Longrightarrow> driving (cycle_events mdl c s) = driving (cycle_events mdl c s')"
  by (simp add: cycle_events_eq Let_def driving_def)

lemma driving_append: "driving (xs @ ys) = driving xs @ driving ys"
  by (simp add: driving_def)

lemma topV_cycle_body_cong:
  "topV s = topV s' \<Longrightarrow> topV (cycle_body mdl c s) = topV (cycle_body mdl c s')"
  by (simp add: topV_cycle_body)

lemma loop_driving:
  "topV s = topV s' \<Longrightarrow> driving (events s) = driving (events s') \<Longrightarrow>
   driving (events (loop mdl c s)) = driving (events (loop mdl c s')) \<and>
   topV (loop mdl c s) = topV (loop mdl c s')"
proof (induction mdl c s arbitrary: s' rule: loop.induct)
  case (1 mdl cycle s)
  show ?case
  proof (cases "cycle < 100")
    case True
    have t: "topV (cycle_body mdl cycle s) = topV (cycle_body mdl cycle s')"
      using "1.prems"(1) by (rule topV_cycle_body_cong)
    have d: "driving (events (cycle_body mdl cycle s)) =
             driving (events (cycle_body mdl cycle s'))"
      using "1.prems"(2) driving_cycle_events [OF "1.prems"(1), of mdl cycle]
      by (simp add: events_cycle_body driving_append)
    from "1.IH" [OF True t d] True show ?thesis
      by (simp add: loop.simps [of mdl cycle])
  next
    case False
    with "1.prems" show ?thesis
      by (simp add: loop.simps [of mdl cycle])
  qed
qed

lemma printed_driving: "printed (driving es) = printed es"
proof (induction es)
  case Nil
  show ?case by (simp add: driving_def printed_def)
next
  case (Cons e es)
  then show ?case by (cases e) (simp_all add: driving_def printed_def)
qed

lemma topV_main: "topV (main mdl fin t) = topV (loop mdl 0 (initial_inputs (startup fin t)))"
  by (simp add: main_def teardown_def emit_def Let_def)

lemma driving_main:
  "driving (events (main mdl False t)) = driving (events (main mdl True t)) \<and>
   topV (main mdl False t) = topV (main mdl True t)"
proof -
  have t: "topV (initial_inputs (startup False t)) = topV (initial_inputs (startup True t))"
    by (simp add: initial_inputs_def startup_def set_rst_n_def set_enable_def set_clk_def
          emit_def Let_def)
  have d: "driving (events (initial_inputs (startup False t))) =
           driving (events (initial_inputs (startup True t)))"
    by (simp add: events_before_loop driving_def)
  from loop_driving [OF t d, of mdl 0] show ?thesis
    by (simp add: events_main topV_main driving_append) (simp add: driving_def)
qed

lemma recorder_main:
  "filter is_recorder (events (main mdl fin t)) =
     (if fin then []
      else [TraceEverOn True, New_VerilatedVcdC, Trace_levels 99, Open_vcd ''counter.vcd''] @
           concat (map (\<lambda>c. [Dump (c * 2), Dump (c * 2 + 1)]) [0..99]) @
           [Close_vcd, Delete_tfp])"
proof -
  have "filter is_recorder (events (main mdl fin t)) =
      filter is_recorder (events (initial_inputs (startup fin t))) @
      concat (map (\<lambda>c. if fin then [] else [Dump (c * 2), Dump (c * 2 + 1)]) [0..99]) @
      filter is_recorder ((if fin then [] else [Close_vcd, Delete_tfp]) @ [Delete_top, Return 0])"
    by (rule main_view) (simp_all add: cycle_events_eq Let_def)
  then show ?thesis
    by (simp add: events_before_loop del: upto_rec_numeral)
qed

subsection \<open>Runs on the counter design\<close>

lemma reported_step:
  "5 \<le> c \<Longrightarrow> (reported w r (c - 1) + 1) mod 2 ^ w = reported w r c"
  by (cases "c = 5") (simp_all add: reported_def mod_simps algebra_simps)

lemma counter_cycle_reset:
  assumes "c < 5"
  shows "printed (cycle_events (counter w r) c s) = [(c, reported w r c)]"
    and "core (topV (cycle_body (counter w r) c s)) = \<lparr>cnt = reported w r c, clk_last = 1\<rparr>"
  using assms
  by (simp_all add: cycle_events_eq topV_cycle_body Let_def printed_def counter_def
        counter_eval_def reported_def)

lemma counter_cycle_running:
  assumes "5 \<le> c" and "core (topV s) = \<lparr>cnt = reported w r (c - 1), clk_last = 1\<rparr>"
  shows "printed (cycle_events (counter w r) c s) = [(c, reported w r c)]"
    and "core (topV (cycle_body (counter w r) c s)) = \<lparr>cnt = reported w r c, clk_last = 1\<rparr>"
  using assms reported_step [of c w r]
  by (simp_all add: cycle_events_eq topV_cycle_body Let_def printed_def counter_def
        counter_eval_def)

lemma counter_reports:
  "printed (events (main (counter w r) fin t)) = map (\<lambda>c. (c, reported w r c)) [0..99]"
proof -
  let ?J = "\<lambda>c s. 0 < c \<longrightarrow> core (topV s) = \<lparr>cnt = reported w r (c - 1), clk_last = 1\<rparr>"
  let ?s = "initial_inputs (startup fin t)"
  have "printed (events (loop (counter w r) 0 ?s)) =
        printed (events ?s) @ concat (map (\<lambda>c. [(c, reported w r c)]) [0..99])"
  proof (rule loop_view [where J = ?J])
    show "\<And>xs ys. printed (xs @ ys) = printed xs @ printed ys" by (rule printed_append)
    show "?J 0 ?s" by simp
  next
    fix c :: int and s :: "counter_state sim"
    assume c: "0 \<le> c" "c < 100" and j: "?J c s"
    show "?J (c + 1) (cycle_body (counter w r) c s)"
    proof (cases "c < 5")
      case True
      then show ?thesis by (simp add: counter_cycle_reset)
    next
      case False
      then have "5 \<le> c" "0 < c" by simp_all
      with j show ?thesis by (simp add: counter_cycle_running)
    qed
    show "printed (cycle_events (counter w r) c s) = [(c, reported w r c)]"
    proof (cases "c < 5")
      case True
      then show ?thesis by (rule counter_cycle_reset)
    next
      case False
      then have "5 \<le> c" "0 < c" by simp_all
      with j show ?thesis by (simp add: counter_cycle_running)
    qed
  qed
  moreover have "concat (map (\<lambda>c. [f c]) xs) = map f xs" for f :: "int \<Rightarrow> int \<times> int" and xs
    by (induction xs) simp_all
  ultimately show ?thesis
    by (simp add: events_main events_before_loop printed_def del: upto_rec_numeral)
qed

lemma counter_report_nth:
  "n < 100 \<Longrightarrow> printed (events (main (counter w r) fin t)) ! n = (int n, reported w r (int n))"
  by (simp add: counter_reports del: upto_rec_numeral)

subsection \<open>The claims\<close>

text \<open>
  In what follows \<open>mdl\<close> is any design, \<open>fin\<close> any value of the backend's finish flag
  at startup and \<open>new_top\<close> any freshly constructed device.

  C1. The loop runs exactly 100 cycles: \<open>printf\<close> is called exactly 100 times, the
  cycle numbers it is given are 0, 1, ..., 99 in this order, each call writes the text
  \<open>Cycle <n>: count = <value>\<close> followed by a newline, with both numbers in decimal,
  and that newline is the only one in the text, so each call writes exactly one line.
\<close>

theorem C1_one_line_per_cycle:
  "map fst (printed (events (main mdl fin new_top))) = [0..99] \<and>
   length (stdout_lines (events (main mdl fin new_top))) = 100 \<and>
   stdout_lines (events (main mdl fin new_top)) =
     map (\<lambda>(c, v). ''Cycle '' @ fmt_d c @ '': count = '' @ fmt_d v @ [CHR 0x0A])
       (printed (events (main mdl fin new_top))) \<and>
   map (\<lambda>l. count_list l (CHR 0x0A)) (stdout_lines (events (main mdl fin new_top))) =
     replicate 100 1"
proof -
  let ?P = "printed (events (main mdl fin new_top))"
  have len: "length ?P = 100"
    using arg_cong [OF printed_main [of mdl fin new_top], of length] by simp
  have "map (\<lambda>l. count_list l (CHR 0x0A)) (stdout_lines (events (main mdl fin new_top))) =
        map (\<lambda>x. 1) ?P"
    by (simp add: stdout_lines_def one_newline split_def)
  also have "\<dots> = replicate 100 1"
    by (simp add: map_replicate_const len)
  finally show ?thesis
    by (simp add: printed_main len stdout_lines_def printf_cycle_format)
qed

text \<open>
  C2. The procedure of a cycle. Read as assignments to \<open>clk\<close>, evaluations, samples and
  reports, a run is: the assignment \<open>clk = 0\<close> of line 21, and then for each cycle \<open>c\<close>
  from 0 to 99, in this order, \<open>clk = 0\<close>, an evaluation, a sample at \<open>2 * c\<close> when the
  recorder is there, \<open>clk = 1\<close>, an evaluation, a sample at \<open>2 * c + 1\<close> when the
  recorder is there, and the report of cycle \<open>c\<close>. So each cycle has exactly two
  evaluations; the first runs with \<open>clk = 0\<close> and the second with \<open>clk = 1\<close>; and the
  values reported are, in order, the values \<open>count\<close> has after the evaluations that ran
  with \<open>clk = 1\<close>.
\<close>

theorem C2_cycle_procedure:
  "steps (events (main mdl fin new_top)) =
     Clock 0 #
     concat (map (\<lambda>c. [Clock 0, Evaluate] @ (if fin then [] else [Sample (c * 2)]) @
                       [Clock 1, Evaluate] @ (if fin then [] else [Sample (c * 2 + 1)]) @
                       [Report c]) [0..99]) \<and>
   map (\<lambda>(r, e, k). k) (eval_inputs (events (main mdl fin new_top))) =
     concat (replicate 100 [0, 1]) \<and>
   map snd (printed (events (main mdl fin new_top))) =
     rising_counts (events (main mdl fin new_top))"
proof -
  let ?E = "events (main mdl fin new_top)"
  let ?g = "\<lambda>c. [Clock 0, Evaluate] @ (if fin then [] else [Sample (c * 2)]) @
                 [Clock 1, Evaluate] @ (if fin then [] else [Sample (c * 2 + 1)]) @
                 [Report c]"
  have "steps ?E =
      steps (events (initial_inputs (startup fin new_top))) @ concat (map ?g [0..99]) @
      steps ((if fin then [] else [Close_vcd, Delete_tfp]) @ [Delete_top, Return 0])"
    by (rule main_view) (simp_all add: cycle_events_eq Let_def steps_def)
  then have s: "steps ?E = Clock 0 # concat (map ?g [0..99])"
    by (simp add: events_before_loop steps_def del: upto_rec_numeral)
  have "map (\<lambda>(r, e, k). k) (eval_inputs ?E) = concat (map (\<lambda>c. [0, 1]) [0..99])"
    by (simp add: eval_inputs_main map_concat comp_def if_distrib [of "map _"]
          del: upto_rec_numeral cong: if_cong)
  then have k: "map (\<lambda>(r, e, k). k) (eval_inputs ?E) = concat (replicate 100 [0, 1])"
    by (simp only: map_replicate_const length_upto) simp
  from s k reports_follow_rising [of mdl fin new_top] show ?thesis
    by (simp only: simp_thms)
qed

text \<open>
  C3. The reset window. The 200 evaluations of a run are, cycle by cycle, the two
  half-cycle evaluations of cycles 0 to 99. In every cycle below 5 both run with
  \<open>rst_n = 0\<close> (and \<open>enable = 0\<close>); in every cycle from 5 on both run with \<open>rst_n = 1\<close>
  and \<open>enable = 1\<close>. The driver is in its first state (resetting) while it assigns 0 to
  \<open>rst_n\<close> and in its second (running) once it assigns 1: it assigns 0 before the loop
  and in cycles 0 to 4, then 1 in cycles 5 to 99, so the assigned value changes exactly
  once, at cycle 5, and reset is never asserted again.
\<close>

theorem C3_reset_window:
  "eval_inputs (events (main mdl fin new_top)) =
     concat (map (\<lambda>c. if c < 5 then [(0, 0, 0), (0, 0, 1)] else [(1, 1, 0), (1, 1, 1)])
       [0..99]) \<and>
   map (\<lambda>(r, e, k). r) (eval_inputs (events (main mdl fin new_top))) =
     replicate 10 0 @ replicate 190 1 \<and>
   rst_n_writes (events (main mdl fin new_top)) = 0 # (replicate 5 0 @ replicate 95 1) \<and>
   transitions (rst_n_writes (events (main mdl fin new_top))) = 1"
proof -
  let ?E = "events (main mdl fin new_top)"
  have "map (\<lambda>(r, e, k). r) (eval_inputs ?E) =
        concat (map (\<lambda>c. if c < 5 then [0, 0] else [1, 1]) [0..99])"
    by (simp add: eval_inputs_main map_concat comp_def if_distrib [of "map _"]
          del: upto_rec_numeral cong: if_cong)
  then have r: "map (\<lambda>(r, e, k). r) (eval_inputs ?E) = replicate 10 0 @ replicate 190 1"
    by (simp only: by_phase concat_replicate_pair) simp
  have "rst_n_writes ?E =
      rst_n_writes (events (initial_inputs (startup fin new_top))) @
      concat (map (\<lambda>c. if c < 5 then [0] else [1]) [0..99]) @
      rst_n_writes ((if fin then [] else [Close_vcd, Delete_tfp]) @ [Delete_top, Return 0])"
    by (rule main_view) (simp_all add: cycle_events_eq Let_def rst_n_writes_def)
  then have w: "rst_n_writes ?E = 0 # (replicate 5 0 @ replicate 95 1)"
    by (simp only: by_phase concat_replicate_single)
       (simp add: events_before_loop rst_n_writes_def)
  have "transitions (0 # (replicate 5 (0::1 word) @ replicate 95 1)) = 1"
    by code_simp
  then have "transitions (rst_n_writes ?E) = 1"
    by (simp only: w)
  with r w show ?thesis
    by (simp only: eval_inputs_main simp_thms)
qed

text \<open>
  C4. When tracing is enabled at startup (the finish flag is down), the run hands the
  recorder exactly 200 samples, with the timestamps 0, 1, ..., 199 in this order:
  strictly increasing, none reused, none skipped. In each cycle \<open>c\<close> the sample after
  the evaluation with \<open>clk = 0\<close> has timestamp \<open>2 * c\<close> and the sample after the
  evaluation with \<open>clk = 1\<close> has timestamp \<open>2 * c + 1\<close>. When tracing is not enabled no
  sample is taken.
\<close>

theorem C4_trace_timestamps:
  "dump_times (events (main mdl False new_top)) = [0..199] \<and>
   length (dump_times (events (main mdl False new_top))) = 200 \<and>
   sorted_wrt (<) (dump_times (events (main mdl False new_top))) \<and>
   edges_and_samples (events (main mdl False new_top)) =
     concat (map (\<lambda>c. [Inl 0, Inr (c * 2), Inl 1, Inr (c * 2 + 1)]) [0..99]) \<and>
   dump_times (events (main mdl True new_top)) = []"
proof -
  have "dump_times (events (main mdl False new_top)) =
      dump_times (events (initial_inputs (startup False new_top))) @
      concat (map (\<lambda>c. [c * 2, c * 2 + 1]) [0..99]) @
      dump_times ((if False then [] else [Close_vcd, Delete_tfp]) @ [Delete_top, Return 0])"
    by (rule main_view) (simp_all add: cycle_events_eq Let_def dump_times_def)
  then have t: "dump_times (events (main mdl False new_top)) = [0..199]"
    by (simp only: double_upto_100) (simp add: events_before_loop dump_times_def)
  have "edges_and_samples (events (main mdl False new_top)) =
      edges_and_samples (events (initial_inputs (startup False new_top))) @
      concat (map (\<lambda>c. [Inl 0, Inr (c * 2), Inl 1, Inr (c * 2 + 1)]) [0..99]) @
      edges_and_samples ((if False then [] else [Close_vcd, Delete_tfp]) @ [Delete_top, Return 0])"
    by (rule main_view) (simp_all add: cycle_events_eq Let_def edges_and_samples_def)
  then have e: "edges_and_samples (events (main mdl False new_top)) =
      concat (map (\<lambda>c. [Inl 0, Inr (c * 2), Inl 1, Inr (c * 2 + 1)]) [0..99])"
    by (simp add: events_before_loop edges_and_samples_def)
  have "dump_times (events (main mdl True new_top)) =
      dump_times (events (initial_inputs (startup True new_top))) @
      concat (map (\<lambda>c. []) [0..99]) @
      dump_times ((if True then [] else [Close_vcd, Delete_tfp]) @ [Delete_top, Return 0])"
    by (rule main_view) (simp_all add: cycle_events_eq Let_def dump_times_def)
  then have n: "dump_times (events (main mdl True new_top)) = []"
    by (simp add: events_before_loop dump_times_def)
  have "sorted_wrt (<) [0..199::int]"
    by (simp only: sorted_wrt_upto)
  then show ?thesis
    by (simp only: t e n length_upto) simp
qed

text \<open>
  C5. The scenario on the counter design with reset value 0 and any width \<open>w\<close>. Cycles 0
  to 4 report 0 and cycle 5 reports 1, the first increment after reset, modulo \<open>2 ^ w\<close>.
  From cycle 5 to cycle 99 the counter sees 95 rising edges with reset released and
  \<open>enable = 1\<close>, so cycle 99 reports 95 modulo \<open>2 ^ w\<close>, which is 99 minus 4.
\<close>

theorem C5_counter_scenario:
  "printed (events (main (counter w 0) fin new_top)) ! 0 = (0, 0) \<and>
   printed (events (main (counter w 0) fin new_top)) ! 1 = (1, 0) \<and>
   printed (events (main (counter w 0) fin new_top)) ! 2 = (2, 0) \<and>
   printed (events (main (counter w 0) fin new_top)) ! 3 = (3, 0) \<and>
   printed (events (main (counter w 0) fin new_top)) ! 4 = (4, 0) \<and>
   printed (events (main (counter w 0) fin new_top)) ! 5 = (5, 1 mod 2 ^ w) \<and>
   printed (events (main (counter w 0) fin new_top)) ! 99 = (99, 95 mod 2 ^ w)"
  by (simp add: counter_report_nth reported_def)

text \<open>
  With a width of 8 bits the run reports 95 in cycle 99, and 95 is not 94 modulo 256: a
  report of 94 (99 minus 5) in cycle 99 would need cycle 5 to report 0 still, so it cannot
  hold together with cycle 5 reporting the first increment.
\<close>

theorem C5_counterexample:
  "snd (printed (events (main (counter 8 0) False
      \<lparr>rst_n = 0, enable = 0, clk = 0, core = \<lparr>cnt = 0, clk_last = 0\<rparr>\<rparr>)) ! 99)
     \<noteq> 94 mod 2 ^ 8 \<and>
   printed (events (main (counter 8 0) False
      \<lparr>rst_n = 0, enable = 0, clk = 0, core = \<lparr>cnt = 0, clk_last = 0\<rparr>\<rparr>)) ! 99 = (99, 95)"
  by (simp add: counter_report_nth reported_def)

text \<open>
  C6. On the counter design with reset value \<open>r\<close> and width \<open>w\<close>, a run reports 100
  values; the report of every cycle below 5 is \<open>r\<close>; and the report of every cycle from 5
  to 99 is the report of the cycle before plus 1, modulo \<open>2 ^ w\<close>. The second theorem is
  a run with reset value 0 and a width of 4 bits, where the count wraps from 15 in cycle 19
  to 0 in cycle 20.
\<close>

theorem C6_reset_value_then_increment:
  "length (printed (events (main (counter w r) fin new_top))) = 100 \<and>
   (\<forall>n<5. printed (events (main (counter w r) fin new_top)) ! n = (int n, r)) \<and>
   (\<forall>n. 5 \<le> n \<and> n < 100 \<longrightarrow>
      fst (printed (events (main (counter w r) fin new_top)) ! n) = int n \<and>
      snd (printed (events (main (counter w r) fin new_top)) ! n) =
        (snd (printed (events (main (counter w r) fin new_top)) ! (n - 1)) + 1) mod 2 ^ w)"
proof -
  have "length (printed (events (main (counter w r) fin new_top))) = 100"
    by (simp add: counter_reports)
  moreover have "printed (events (main (counter w r) fin new_top)) ! n = (int n, r)"
    if "n < 5" for n
    using that by (simp add: counter_report_nth reported_def)
  moreover have "fst (printed (events (main (counter w r) fin new_top)) ! n) = int n \<and>
      snd (printed (events (main (counter w r) fin new_top)) ! n) =
        (snd (printed (events (main (counter w r) fin new_top)) ! (n - 1)) + 1) mod 2 ^ w"
    if "5 \<le> n" "n < 100" for n
  proof -
    have "int (n - 1) = int n - 1" using that by simp
    then show ?thesis
      using that reported_step [of "int n" w r] by (simp add: counter_report_nth)
  qed
  ultimately show ?thesis by blast
qed

theorem C6_reset_value_then_increment_witness:
  "printed (events (main (counter 4 0) False
      \<lparr>rst_n = 0, enable = 0, clk = 0, core = \<lparr>cnt = 7, clk_last = 1\<rparr>\<rparr>)) ! 3 = (3, 0) \<and>
   snd (printed (events (main (counter 4 0) False
      \<lparr>rst_n = 0, enable = 0, clk = 0, core = \<lparr>cnt = 7, clk_last = 1\<rparr>\<rparr>)) ! 20) =
   (snd (printed (events (main (counter 4 0) False
      \<lparr>rst_n = 0, enable = 0, clk = 0, core = \<lparr>cnt = 7, clk_last = 1\<rparr>\<rparr>)) ! 19) + 1) mod 2 ^ 4 \<and>
   printed (events (main (counter 4 0) False
      \<lparr>rst_n = 0, enable = 0, clk = 0, core = \<lparr>cnt = 7, clk_last = 1\<rparr>\<rparr>)) ! 19 = (19, 15) \<and>
   printed (events (main (counter 4 0) False
      \<lparr>rst_n = 0, enable = 0, clk = 0, core = \<lparr>cnt = 7, clk_last = 1\<rparr>\<rparr>)) ! 20 = (20, 0)"
proof -
  let ?P = "printed (events (main (counter 4 0) False
      \<lparr>rst_n = 0, enable = 0, clk = 0, core = \<lparr>cnt = 7, clk_last = 1\<rparr>\<rparr>))"
  note inst = C6_reset_value_then_increment [of 4 0 False
      "\<lparr>rst_n = 0, enable = 0, clk = 0, core = \<lparr>cnt = 7, clk_last = 1\<rparr>\<rparr>"]
  have a: "?P ! 3 = (3, 0)"
    using inst by simp
  have b: "snd (?P ! 20) = (snd (?P ! 19) + 1) mod 2 ^ 4"
    using inst by simp
  have c: "?P ! 19 = (19, 15)" "?P ! 20 = (20, 0)"
    by (simp_all add: counter_report_nth reported_def)
  from a b c show ?thesis by (simp only: simp_thms)
qed

text \<open>
  C7. Tracing changes nothing else. Take two runs of one design from one freshly
  constructed device, the first with the finish flag down at startup (tracing), the second
  with it up (no tracing). Leaving out the effects on the recorder and the startup
  question, the two runs are the same list of effects: the same assignments, evaluations
  (under the same inputs, with the same resulting \<open>count\<close>), reports, and the same end.
  They write the same lines and leave the device in the same state. The run without
  tracing has no effect on the recorder at all; the run with tracing has the opening, the
  200 samples and the closing.
\<close>

theorem C7_tracing_changes_nothing_else:
  "driving (events (main mdl False new_top)) = driving (events (main mdl True new_top)) \<and>
   stdout_lines (events (main mdl False new_top)) =
     stdout_lines (events (main mdl True new_top)) \<and>
   topV (main mdl False new_top) = topV (main mdl True new_top) \<and>
   filter is_recorder (events (main mdl True new_top)) = [] \<and>
   filter is_recorder (events (main mdl False new_top)) =
     [TraceEverOn True, New_VerilatedVcdC, Trace_levels 99, Open_vcd ''counter.vcd''] @
     concat (map (\<lambda>c. [Dump (c * 2), Dump (c * 2 + 1)]) [0..99]) @
     [Close_vcd, Delete_tfp]"
proof -
  have "printed (driving (events (main mdl False new_top))) =
        printed (driving (events (main mdl True new_top)))"
    by (simp only: driving_main)
  then have "stdout_lines (events (main mdl False new_top)) =
             stdout_lines (events (main mdl True new_top))"
    by (simp only: printed_driving stdout_lines_def)
  then show ?thesis
    using driving_main [of mdl new_top] recorder_main [of mdl False new_top]
      recorder_main [of mdl True new_top]
    by (simp only: simp_thms if_True if_False)
qed

text \<open>
  C8. Teardown. A recorder is opened (once, on \<open>counter.vcd\<close>) exactly when the finish
  flag was down at startup. From the first closing or releasing effect on, the run is:
  close the recorder, release it, release the device, return 0, when a recorder was opened;
  release the device, return 0, when none was. Nothing follows the return of 0.
\<close>

theorem C8_teardown_order:
  "filter is_open (events (main mdl fin new_top)) =
     (if fin then [] else [Open_vcd ''counter.vcd'']) \<and>
   dropWhile (\<lambda>e. \<not> is_teardown e) (events (main mdl fin new_top)) =
     (if filter is_open (events (main mdl fin new_top)) \<noteq> []
      then [Close_vcd, Delete_tfp, Delete_top, Return 0]
      else [Delete_top, Return 0]) \<and>
   last (events (main mdl fin new_top)) = Return 0"
proof -
  have "dropWhile (\<lambda>e. \<not> is_teardown e) (events (main mdl fin new_top)) =
        (if fin then [Delete_top, Return 0] else [Close_vcd, Delete_tfp, Delete_top, Return 0])"
    by (simp add: events_main dropWhile_past [OF no_teardown_in_loop])
  then show ?thesis
    by (simp add: opened_main) (simp add: events_main)
qed

text \<open>
  C9. The finish condition. \<open>Verilated::gotFinish()\<close> is called exactly once in a run, as
  the third effect, after the arguments are passed on and the device is constructed and
  before anything is assigned or evaluated. Whatever the design does, all 100 cycles run,
  with their 200 evaluations. The answer decides on the recorder and on nothing else: but
  for the effects on the recorder and the question itself, the run after the answer
  \<open>False\<close> and the run after the answer \<open>True\<close> are the same. The second theorem is
  a run of a design that signals the finish condition at every evaluation, started with
  the flag down: the flag is up when the run ends, and the run still reported cycles 0 to
  99.
\<close>

theorem C9_finish_consulted_once:
  "consults (events (main mdl fin new_top)) = [GotFinish fin] \<and>
   take 3 (events (main mdl fin new_top)) = [CommandArgs, New_Vcounter, GotFinish fin] \<and>
   map fst (printed (events (main mdl fin new_top))) = [0..99] \<and>
   length (eval_inputs (events (main mdl fin new_top))) = 200 \<and>
   driving (events (main mdl False new_top)) = driving (events (main mdl True new_top))"
proof -
  have "3 \<le> length (events (loop mdl 0 (initial_inputs (startup fin new_top))))"
    using length_take [of 3 "events (loop mdl 0 (initial_inputs (startup fin new_top)))"]
    by (simp add: events_loop_prefix)
  then have "take 3 (events (main mdl fin new_top)) = [CommandArgs, New_Vcounter, GotFinish fin]"
    by (simp add: events_main events_loop_prefix)
  moreover have "length (eval_inputs (events (main mdl fin new_top))) = 200"
    by (simp add: eval_inputs_main by_phase length_concat_replicate_two)
  ultimately show ?thesis
    by (simp add: consults_main printed_main driving_main)
qed

theorem C9_finish_consulted_once_witness:
  "got_finish (main \<lparr>eval_m = (\<lambda>r e k m. m), count_m = (\<lambda>m. 0), finish_m = (\<lambda>m. True)\<rparr>
      False \<lparr>rst_n = 0, enable = 0, clk = 0, core = ()\<rparr>) \<and>
   map fst (printed (events
     (main \<lparr>eval_m = (\<lambda>r e k m. m), count_m = (\<lambda>m. 0), finish_m = (\<lambda>m. True)\<rparr>
      False \<lparr>rst_n = 0, enable = 0, clk = 0, core = ()\<rparr>))) = [0..99]"
  using C9_finish_consulted_once
    [of "\<lparr>eval_m = (\<lambda>r e k m. m), count_m = (\<lambda>m. 0), finish_m = (\<lambda>m. True)\<rparr>"
        False "\<lparr>rst_n = 0, enable = 0, clk = 0, core = ()\<rparr>"]
  by (simp add: finish_raised_mid_run del: upto_rec_numeral)

text \<open>
  C10. \<open>enable\<close> in the reset window. The 10 evaluations of cycles 0 to 4 all run with
  \<open>enable = 0\<close>, the 190 later ones with \<open>enable = 1\<close>. \<open>enable\<close> is assigned 0 once,
  before the loop, and after that only ever 1: it is not assigned at all in cycles 0 to 4,
  and from cycle 5 on each cycle assigns \<open>rst_n = 1\<close> and then \<open>enable = 1\<close>.
\<close>

theorem C10_enable_in_reset_window:
  "map (\<lambda>(r, e, k). e) (eval_inputs (events (main mdl fin new_top))) =
     replicate 10 0 @ replicate 190 1 \<and>
   enable_writes (events (main mdl fin new_top)) = 0 # replicate 95 1 \<and>
   stimulus (events (main mdl fin new_top)) =
     [Set_rst_n 0, Set_enable 0] @
     concat (map (\<lambda>c. if c < 5 then [Set_rst_n 0] else [Set_rst_n 1, Set_enable 1]) [0..99])"
proof -
  let ?E = "events (main mdl fin new_top)"
  have "map (\<lambda>(r, e, k). e) (eval_inputs ?E) =
        concat (map (\<lambda>c. if c < 5 then [0, 0] else [1, 1]) [0..99])"
    by (simp add: eval_inputs_main map_concat comp_def if_distrib [of "map _"]
          del: upto_rec_numeral cong: if_cong)
  then have e: "map (\<lambda>(r, e, k). e) (eval_inputs ?E) = replicate 10 0 @ replicate 190 1"
    by (simp only: by_phase concat_replicate_pair) simp
  have "enable_writes ?E =
      enable_writes (events (initial_inputs (startup fin new_top))) @
      concat (map (\<lambda>c. if c < 5 then [] else [1]) [0..99]) @
      enable_writes ((if fin then [] else [Close_vcd, Delete_tfp]) @ [Delete_top, Return 0])"
    by (rule main_view) (simp_all add: cycle_events_eq Let_def enable_writes_def)
  then have w: "enable_writes ?E = 0 # replicate 95 1"
    by (simp only: by_phase concat_replicate_single)
       (simp add: events_before_loop enable_writes_def)
  have "stimulus ?E =
      stimulus (events (initial_inputs (startup fin new_top))) @
      concat (map (\<lambda>c. if c < 5 then [Set_rst_n 0] else [Set_rst_n 1, Set_enable 1]) [0..99]) @
      stimulus ((if fin then [] else [Close_vcd, Delete_tfp]) @ [Delete_top, Return 0])"
    by (rule main_view) (simp_all add: cycle_events_eq Let_def stimulus_def)
  then have s: "stimulus ?E = [Set_rst_n 0, Set_enable 0] @
      concat (map (\<lambda>c. if c < 5 then [Set_rst_n 0] else [Set_rst_n 1, Set_enable 1]) [0..99])"
    by (simp add: events_before_loop stimulus_def del: upto_rec_numeral)
  from e w s show ?thesis by (simp only: simp_thms)
qed

end
